theory Spec2Isabelle
  imports Main "HOL-Library.Sublist"
begin

section \<open>Values, errors and the outside world\<close>

text \<open>
  The loader of \<^verbatim>\<open>bike_class.py\<close> works on the JSON value returned by the CKAN
  portal. A JSON object is the Python dict it was parsed into, kept as an association
  list that is read with \<open>map_of\<close>. Numbers carry an integer only: the code never
  looks at a number except to find that it is not a string, not a dict and not \<open>True\<close>.
\<close>

datatype json =
    JNull
  | JBool bool
  | JNum int
  | JStr string
  | JArr "json list"
  | JObj "(string \<times> json) list"

text \<open>
  Every exception the code can meet is a subclass of Python's \<open>Exception\<close>.
  \<open>LibraryError\<close> stands for whatever \<open>requests\<close>, the JSON decoder,
  \<open>zipfile\<close>, \<open>pandas\<close> or \<open>openpyxl\<close> raise, with a description.
\<close>

datatype py_error =
    KeyError string
  | TypeError
  | AttributeError
  | AssertionError
  | UnboundLocalError
  | LibraryError string

type_synonym bytes = string

text \<open>
  A DataFrame: column names, row labels (the index) and the rows, each row holding one
  cell per column, in column order.
\<close>

datatype cell = Missing | Val string

record table =
  columns :: "string list"
  index :: "nat list"
  rows :: "cell list list"

text \<open>
  The result of \<open>chardet.detect\<close> is a dict; of its entries only \<open>'encoding'\<close> is
  read, and its value is a string or Python's \<open>None\<close>.
\<close>

type_synonym detection = "string \<rightharpoonup> string option"

text \<open>
  An opened \<open>zipfile.ZipFile\<close>: \<open>namelist()\<close> and \<open>open(name)\<close> followed by reading
  the member, which may fail.
\<close>

record zip_archive =
  namelist :: "string list"
  zopen :: "string \<Rightarrow> py_error + bytes"

text \<open>
  The libraries the loader calls, as parameters:
  \<open>http_get url\<close> is \<open>requests.get(url, timeout=15).content\<close>,
  \<open>json_of\<close> is \<open>response.json()\<close> on that content,
  \<open>zip_open\<close> is \<open>zipfile.ZipFile(io.BytesIO(content))\<close>,
  \<open>detect\<close> is \<open>chardet.detect\<close>,
  \<open>read_csv\<close> is \<open>pd.read_csv(_, encoding=_)\<close> and
  \<open>read_excel\<close> is \<open>pd.read_excel(_, engine="openpyxl")\<close>.
  A URL answers the same way each time it is asked during one build.
\<close>

record env =
  http_get :: "string \<Rightarrow> py_error + bytes"
  json_of :: "bytes \<Rightarrow> py_error + json"
  zip_open :: "bytes \<Rightarrow> py_error + zip_archive"
  detect :: "bytes \<Rightarrow> detection"
  read_csv :: "bytes \<Rightarrow> string option \<Rightarrow> py_error + table"
  read_excel :: "bytes \<Rightarrow> py_error + table"

text \<open>What the loader does that can be observed besides its return value.\<close>

datatype event =
    Requested string
  | PrintedFailed string py_error
  | PrintedNoData int

section \<open>Python primitives\<close>

text \<open>\<open>str.lower()\<close> on the ASCII letters; URLs and format names are ASCII.\<close>

definition lower_char :: "char \<Rightarrow> char" where
  "lower_char c =
     (case map_of (zip ''ABCDEFGHIJKLMNOPQRSTUVWXYZ'' ''abcdefghijklmnopqrstuvwxyz'') c of
        None \<Rightarrow> c
      | Some l \<Rightarrow> l)"

definition lower :: "string \<Rightarrow> string" where
  "lower s = map lower_char s"

text \<open>\<open>str(year)\<close> for an integer year.\<close>

definition digit_char :: "nat \<Rightarrow> char" where
  "digit_char d = ''0123456789'' ! d"

fun str_nat :: "nat \<Rightarrow> string" where
  "str_nat n = (if n < 10 then [digit_char n] else str_nat (n div 10) @ [digit_char (n mod 10)])"

declare str_nat.simps [simp del]

definition str_int :: "int \<Rightarrow> string" where
  "str_int i = (if i < 0 then CHR ''-'' # str_nat (nat (- i)) else str_nat (nat i))"

text \<open>\<open>s.endswith((a, b, ...))\<close> with a tuple of suffixes.\<close>

definition endswith :: "string \<Rightarrow> string list \<Rightarrow> bool" where
  "endswith s sufs = list_ex (\<lambda>suf. suffix suf s) sufs"

text \<open>\<open>value[key]\<close> on a parsed JSON value, with a string key.\<close>

fun getitem :: "json \<Rightarrow> string \<Rightarrow> py_error + json" where
  "getitem (JObj kvs) k = (case map_of kvs k of None \<Rightarrow> Inl (KeyError k) | Some v \<Rightarrow> Inr v)"
| "getitem _ k = Inl TypeError"

text \<open>\<open>value.lower()\<close>: only a string has the method.\<close>

fun py_lower :: "json \<Rightarrow> py_error + string" where
  "py_lower (JStr s) = Inr (lower s)"
| "py_lower _ = Inl AttributeError"

text \<open>\<open>for value in resources\<close>: what iterating a parsed JSON value yields.\<close>

fun py_iter :: "json \<Rightarrow> py_error + json list" where
  "py_iter (JArr xs) = Inr xs"
| "py_iter (JObj kvs) = Inr (map (\<lambda>kv. JStr (fst kv)) kvs)"
| "py_iter (JStr s) = Inr (map (\<lambda>c. JStr [c]) s)"
| "py_iter _ = Inl TypeError"

section \<open>get_metadata\<close>

text \<open>
  \<^verbatim>\<open>
  response = self.get_response(self.package_url)
  data = response.json()
  assert data.get("success", False) is True
  return data["result"]["resources"]
  \<close>
  \<open>data.get\<close> exists on a dict only; \<open>is True\<close> holds for the boolean \<open>True\<close> alone.
  Assertions are enabled, as they are unless Python is started with \<open>-O\<close>.
\<close>

fun dict_get_success :: "json \<Rightarrow> py_error + json" where
  "dict_get_success (JObj kvs) =
     (case map_of kvs ''success'' of None \<Rightarrow> Inr (JBool False) | Some v \<Rightarrow> Inr v)"
| "dict_get_success _ = Inl AttributeError"

definition get_metadata :: "env \<Rightarrow> string \<Rightarrow> py_error + json" where
  "get_metadata e package_url =
     (case http_get e package_url of
        Inl err \<Rightarrow> Inl err
      | Inr body \<Rightarrow>
         (case json_of e body of
            Inl err \<Rightarrow> Inl err
          | Inr data \<Rightarrow>
             (case dict_get_success data of
                Inl err \<Rightarrow> Inl err
              | Inr s \<Rightarrow>
                 if s \<noteq> JBool True then Inl AssertionError
                 else (case getitem data ''result'' of
                         Inl err \<Rightarrow> Inl err
                       | Inr res \<Rightarrow> getitem res ''resources''))))"

section \<open>Choosing the encoding\<close>

text \<open>
  Lines 45-49 and 77-80 are the same three statements:
  \<^verbatim>\<open>
  detected = chardet.detect(sample)
  encoding = detected.get('encoding', 'utf-8')
  if encoding and encoding.lower() == 'ascii':
      encoding = 'cp1252'
  \<close>
  \<open>dict.get\<close> returns its default only when the key is absent; \<open>None\<close> and the empty
  string are falsy.
\<close>

definition choose_encoding :: "detection \<Rightarrow> string option" where
  "choose_encoding detected =
     (let encoding = (case detected ''encoding'' of None \<Rightarrow> Some ''utf-8'' | Some v \<Rightarrow> v)
      in case encoding of
           None \<Rightarrow> None
         | Some enc \<Rightarrow> if enc \<noteq> [] \<and> lower enc = ''ascii'' then Some ''cp1252'' else Some enc)"

definition parse_csv :: "env \<Rightarrow> bytes \<Rightarrow> py_error + table" where
  "parse_csv e content = read_csv e content (choose_encoding (detect e (take 2000 content)))"

section \<open>extract_valid_dataframes_from_zip\<close>

text \<open>
  The body of \<open>with z.open(filename) as f\<close>, up to the value bound to \<open>df\<close>. The last
  branch is the one where neither \<open>if\<close> nor \<open>elif\<close> binds \<open>df\<close>.
\<close>

definition read_member :: "env \<Rightarrow> zip_archive \<Rightarrow> string \<Rightarrow> py_error + table" where
  "read_member e z filename =
     (case zopen z filename of
        Inl err \<Rightarrow> Inl err
      | Inr f \<Rightarrow>
          if endswith filename [''.csv''] then parse_csv e f
          else if endswith filename [''.xlsx''] then read_excel e f
          else Inl UnboundLocalError)"

definition member_ok :: "string \<Rightarrow> string \<Rightarrow> bool" where
  "member_ok year_str filename \<longleftrightarrow>
     endswith filename [''.csv'', ''.xlsx''] \<and> sublist year_str filename"

fun zip_loop :: "env \<Rightarrow> zip_archive \<Rightarrow> string \<Rightarrow> string list \<Rightarrow> table list \<Rightarrow> py_error + table list" where
  "zip_loop e z year_str [] dfs = Inr dfs"
| "zip_loop e z year_str (filename # rest) dfs =
     (if member_ok year_str filename then
        (case read_member e z filename of
           Inl err \<Rightarrow> Inl err
         | Inr df \<Rightarrow> zip_loop e z year_str rest (dfs @ [df]))
      else zip_loop e z year_str rest dfs)"

definition extract_valid_dataframes_from_zip :: "env \<Rightarrow> bytes \<Rightarrow> int \<Rightarrow> py_error + table list" where
  "extract_valid_dataframes_from_zip e zip_content year =
     (case zip_open e zip_content of
        Inl err \<Rightarrow> Inl err
      | Inr z \<Rightarrow> zip_loop e z (str_int year) (namelist z) [])"

section \<open>get_files\<close>

text \<open>The condition of line 63: when it holds, the loop goes on to the next descriptor.\<close>

definition skipped :: "string \<Rightarrow> string \<Rightarrow> bool" where
  "skipped year_str url_lower \<longleftrightarrow>
     \<not> sublist year_str url_lower \<or> sublist ''readme'' url_lower
       \<or> \<not> endswith url_lower [''.zip'', ''.xlsx'', ''.csv'']"

text \<open>The statements inside \<open>try\<close>, after \<open>get_response\<close> has answered.\<close>

definition dispatch :: "env \<Rightarrow> int \<Rightarrow> json \<Rightarrow> bytes \<Rightarrow> py_error + table list" where
  "dispatch e year val content =
     (case getitem val ''format'' of
        Inl err \<Rightarrow> Inl err
      | Inr f \<Rightarrow>
         (case py_lower f of
            Inl err \<Rightarrow> Inl err
          | Inr fmt \<Rightarrow>
              if fmt = ''zip'' then extract_valid_dataframes_from_zip e content year
              else if fmt = ''xlsx'' then map_sum id (\<lambda>df. [df]) (read_excel e content)
              else if fmt = ''csv'' then map_sum id (\<lambda>df. [df]) (parse_csv e content)
              else Inr []))"

definition try_body :: "env \<Rightarrow> int \<Rightarrow> json \<Rightarrow> string \<Rightarrow> py_error + table list" where
  "try_body e year val url =
     (case http_get e url of
        Inl err \<Rightarrow> Inl err
      | Inr content \<Rightarrow> dispatch e year val content)"

text \<open>
  Line 61, \<open>value["url"].lower()\<close>, needs \<open>value\<close> to be a dict with the key and the
  entry to be a string. \<open>get_url\<close> is that string, or the exception of line 61.
\<close>

definition get_url :: "json \<Rightarrow> py_error + string" where
  "get_url val =
     (case getitem val ''url'' of
        Inl err \<Rightarrow> Inl err
      | Inr u \<Rightarrow> (case u of JStr s \<Rightarrow> Inr s | _ \<Rightarrow> Inl AttributeError))"

text \<open>
  The loop of \<open>get_files\<close>, with the list \<open>dfs\<close> and the events so far. An exception
  raised while filtering (line 61) leaves the loop; one raised inside \<open>try\<close> is printed.
\<close>

fun get_files_loop ::
  "env \<Rightarrow> int \<Rightarrow> json list \<Rightarrow> table list \<Rightarrow> event list \<Rightarrow> event list \<times> (py_error + table list)" where
  "get_files_loop e year [] dfs evs = (evs, Inr dfs)"
| "get_files_loop e year (val # rest) dfs evs =
     (case get_url val of
        Inl err \<Rightarrow> (evs, Inl err)
      | Inr url \<Rightarrow>
          if skipped (str_int year) (lower url) then get_files_loop e year rest dfs evs
          else (case try_body e year val url of
                  Inl err \<Rightarrow>
                    get_files_loop e year rest dfs (evs @ [Requested url, PrintedFailed url err])
                | Inr new \<Rightarrow>
                    get_files_loop e year rest (dfs @ new) (evs @ [Requested url])))"

definition get_files :: "env \<Rightarrow> json \<Rightarrow> int \<Rightarrow> event list \<times> (py_error + table list)" where
  "get_files e resources year =
     (case py_iter resources of
        Inl err \<Rightarrow> ([], Inl err)
      | Inr vals \<Rightarrow> get_files_loop e year vals [] [])"

section \<open>create_df\<close>

text \<open>
  Modelled from the spec: \<open>pd.DataFrame()\<close> of the pandas library, which is not part of
  the repository. The spec's Step 5 and property 5: an empty Table, with zero rows and
  zero columns.
\<close>

definition empty_frame :: table where
  "empty_frame = \<lparr>columns = [], index = [], rows = []\<rparr>"

text \<open>The cell a row holds under the column named \<open>c\<close>; a missing value when it has none.\<close>

definition cell_at :: "string list \<Rightarrow> cell list \<Rightarrow> string \<Rightarrow> cell" where
  "cell_at cols r c = (case map_of (zip cols r) c of None \<Rightarrow> Missing | Some v \<Rightarrow> v)"

definition union_columns :: "table list \<Rightarrow> string list" where
  "union_columns ts = rev (remdups (rev (concat (map columns ts))))"

definition nrows :: "table \<Rightarrow> nat" where
  "nrows t = length (rows t)"

text \<open>
  Modelled from the spec: \<open>pd.concat(data, ignore_index=True)\<close> of the pandas library,
  which is not part of the repository. The spec's Step 6: the Tables are concatenated
  into one, rows in the order collected and reindexed contiguously; columns are aligned by
  the union of the names, and a row lacking a column gets a missing value there.
\<close>

definition pd_concat :: "table list \<Rightarrow> table" where
  "pd_concat ts =
     (let cols = union_columns ts;
          rs = concat (map (\<lambda>t. map (\<lambda>r. map (cell_at (columns t) r) cols) (rows t)) ts)
      in \<lparr>columns = cols, index = [0 ..< length rs], rows = rs\<rparr>)"

text \<open>
  \<^verbatim>\<open>
  data = self.get_files(year)
  if not data:
      print(f"No valid data files found for year {year}.")
      return pd.DataFrame()
  return pd.concat(data, ignore_index=True)
  \<close>
\<close>

definition create_df :: "env \<Rightarrow> json \<Rightarrow> int \<Rightarrow> event list \<times> (py_error + table)" where
  "create_df e resources year =
     (case get_files e resources year of
        (evs, Inl err) \<Rightarrow> (evs, Inl err)
      | (evs, Inr data) \<Rightarrow>
          if data = [] then (evs @ [PrintedNoData year], Inr empty_frame)
          else (evs, Inr (pd_concat data)))"

text \<open>The URLs handed to \<open>get_response\<close>, in the order of the calls.\<close>

fun requests_of :: "event list \<Rightarrow> string list" where
  "requests_of [] = []"
| "requests_of (Requested u # evs) = u # requests_of evs"
| "requests_of (_ # evs) = requests_of evs"

section \<open>Where each DataFrame comes from\<close>

text \<open>
  The same loops once more, each DataFrame paired with the place it was read from: the
  URL of a resource, or the URL of a ZIP resource and the name of a member of it. The
  pairing changes nothing else (\<open>get_files_loop_traced_erase\<close> below).
\<close>

datatype origin = FromUrl string | FromMember string string

fun zip_loop_traced ::
  "env \<Rightarrow> zip_archive \<Rightarrow> string \<Rightarrow> string list \<Rightarrow> (string \<times> table) list
     \<Rightarrow> py_error + (string \<times> table) list" where
  "zip_loop_traced e z year_str [] dfs = Inr dfs"
| "zip_loop_traced e z year_str (filename # rest) dfs =
     (if member_ok year_str filename then
        (case read_member e z filename of
           Inl err \<Rightarrow> Inl err
         | Inr df \<Rightarrow> zip_loop_traced e z year_str rest (dfs @ [(filename, df)]))
      else zip_loop_traced e z year_str rest dfs)"

definition extract_traced :: "env \<Rightarrow> bytes \<Rightarrow> int \<Rightarrow> py_error + (string \<times> table) list" where
  "extract_traced e zip_content year =
     (case zip_open e zip_content of
        Inl err \<Rightarrow> Inl err
      | Inr z \<Rightarrow> zip_loop_traced e z (str_int year) (namelist z) [])"

definition dispatch_traced ::
  "env \<Rightarrow> int \<Rightarrow> json \<Rightarrow> string \<Rightarrow> bytes \<Rightarrow> py_error + (origin \<times> table) list" where
  "dispatch_traced e year val url content =
     (case getitem val ''format'' of
        Inl err \<Rightarrow> Inl err
      | Inr f \<Rightarrow>
         (case py_lower f of
            Inl err \<Rightarrow> Inl err
          | Inr fmt \<Rightarrow>
              if fmt = ''zip'' then
                map_sum id (map (\<lambda>nt. (FromMember url (fst nt), snd nt)))
                  (extract_traced e content year)
              else if fmt = ''xlsx'' then
                map_sum id (\<lambda>df. [(FromUrl url, df)]) (read_excel e content)
              else if fmt = ''csv'' then
                map_sum id (\<lambda>df. [(FromUrl url, df)]) (parse_csv e content)
              else Inr []))"

definition try_body_traced ::
  "env \<Rightarrow> int \<Rightarrow> json \<Rightarrow> string \<Rightarrow> py_error + (origin \<times> table) list" where
  "try_body_traced e year val url =
     (case http_get e url of
        Inl err \<Rightarrow> Inl err
      | Inr content \<Rightarrow> dispatch_traced e year val url content)"

fun get_files_loop_traced ::
  "env \<Rightarrow> int \<Rightarrow> json list \<Rightarrow> (origin \<times> table) list \<Rightarrow> event list
     \<Rightarrow> event list \<times> (py_error + (origin \<times> table) list)" where
  "get_files_loop_traced e year [] dfs evs = (evs, Inr dfs)"
| "get_files_loop_traced e year (val # rest) dfs evs =
     (case get_url val of
        Inl err \<Rightarrow> (evs, Inl err)
      | Inr url \<Rightarrow>
          if skipped (str_int year) (lower url) then get_files_loop_traced e year rest dfs evs
          else (case try_body_traced e year val url of
                  Inl err \<Rightarrow>
                    get_files_loop_traced e year rest dfs
                      (evs @ [Requested url, PrintedFailed url err])
                | Inr new \<Rightarrow>
                    get_files_loop_traced e year rest (dfs @ new) (evs @ [Requested url])))"

definition get_files_traced ::
  "env \<Rightarrow> json \<Rightarrow> int \<Rightarrow> event list \<times> (py_error + (origin \<times> table) list)" where
  "get_files_traced e resources year =
     (case py_iter resources of
        Inl err \<Rightarrow> ([], Inl err)
      | Inr vals \<Rightarrow> get_files_loop_traced e year vals [] [])"

text \<open>The string that identifies where a DataFrame was read from.\<close>

fun identifying :: "origin \<Rightarrow> string" where
  "identifying (FromUrl url) = url"
| "identifying (FromMember url filename) = filename"

text \<open>
  An origin that the two filters let through: the URL passed line 63 and, for a member,
  its name passed line 40.
\<close>

definition from_selected :: "int \<Rightarrow> origin \<Rightarrow> bool" where
  "from_selected y og \<longleftrightarrow>
     (case og of
        FromUrl u \<Rightarrow> \<not> skipped (str_int y) (lower u)
      | FromMember u n \<Rightarrow> \<not> skipped (str_int y) (lower u) \<and> member_ok (str_int y) n)"

section \<open>A small portal to run the loader on\<close>

definition t_jan :: table where
  "t_jan = \<lparr>columns = [''id'', ''dur''], index = [0, 1],
            rows = [[Val ''1'', Val ''10''], [Val ''2'', Val ''20'']]\<rparr>"

definition t_feb :: table where
  "t_feb = \<lparr>columns = [''id'', ''bike''], index = [0], rows = [[Val ''3'', Val ''b7'']]\<rparr>"

definition t_q1 :: table where
  "t_q1 = \<lparr>columns = [''dur''], index = [0], rows = [[Val ''30'']]\<rparr>"

definition t_doc :: table where
  "t_doc = \<lparr>columns = [''note''], index = [0], rows = [[Val ''see the portal'']]\<rparr>"

definition arch_a :: zip_archive where
  "arch_a = \<lparr>namelist = [''t-2023-01.csv'', ''notes.txt'', ''t-2022-12.csv'', ''t-2023-02.xlsx''],
             zopen = (\<lambda>n. if n = ''t-2023-01.csv'' then Inr ''jan''
                         else if n = ''t-2023-02.xlsx'' then Inr ''feb''
                         else if n = ''notes.txt'' then Inl (LibraryError ''BadZipFile'')
                         else Inr ''junk'')\<rparr>"

definition arch_b :: zip_archive where
  "arch_b = \<lparr>namelist = [''t-2023-01.csv'', ''bad-2023.csv'', ''t-2023-02.xlsx'',
                         ''late-2023.xlsx''],
             zopen = (\<lambda>n. if n = ''t-2023-01.csv'' then Inr ''jan''
                         else if n = ''t-2023-02.xlsx'' then Inr ''feb''
                         else if n = ''late-2023.xlsx'' then Inl (LibraryError ''BadZipFile'')
                         else Inr ''junk'')\<rparr>"

definition arch_c :: zip_archive where
  "arch_c = \<lparr>namelist = [''readme-2023.csv''], zopen = (\<lambda>n. Inr ''doc'')\<rparr>"

definition good_catalog :: json where
  "good_catalog =
     JObj [(''success'', JBool True),
           (''result'', JObj [(''resources'', JArr [JObj [(''url'', JStr ''http://p/bike-2023.zip'')]])])]"

definition odd_catalog :: json where
  "odd_catalog =
     JObj [(''success'', JNum 1),
           (''result'', JObj [(''resources'', JArr [JObj [(''url'', JStr ''http://p/bike-2023.zip'')]])])]"

definition portal :: env where
  "portal =
     \<lparr>http_get = (\<lambda>u. if u = ''http://p/pkg'' then Inr ''catalog''
                      else if u = ''http://p/odd'' then Inr ''odd''
                      else if u = ''http://p/bike-2023.zip'' then Inr ''zipA''
                      else if u = ''http://p/more-2023.zip'' then Inr ''zipB''
                      else if u = ''http://p/docs-2023.zip'' then Inr ''zipC''
                      else if u = ''http://p/Trips-2023.CSV'' then Inr ''q1''
                      else Inl (LibraryError ''ConnectionError'')),
      json_of = (\<lambda>b. if b = ''catalog'' then Inr good_catalog
                     else if b = ''odd'' then Inr odd_catalog
                     else Inl (LibraryError ''JSONDecodeError'')),
      zip_open = (\<lambda>b. if b = ''zipA'' then Inr arch_a
                      else if b = ''zipB'' then Inr arch_b
                      else if b = ''zipC'' then Inr arch_c
                      else Inl (LibraryError ''BadZipFile'')),
      detect = (\<lambda>sample. if sample = ''doc'' then [''encoding'' \<mapsto> None]
                         else [''encoding'' \<mapsto> Some ''ascii'']),
      read_csv = (\<lambda>b enc. if b = ''jan'' \<and> enc = Some ''cp1252'' then Inr t_jan
                          else if b = ''q1'' \<and> enc = Some ''cp1252'' then Inr t_q1
                          else if b = ''doc'' \<and> (enc = None \<or> enc = Some ''utf-8'') then Inr t_doc
                          else Inl (LibraryError ''ParserError'')),
      read_excel = (\<lambda>b. if b = ''feb'' then Inr t_feb
                        else Inl (LibraryError ''BadZipFile''))\<rparr>"

definition d_zip_a :: json where
  "d_zip_a = JObj [(''url'', JStr ''http://p/bike-2023.zip''), (''format'', JStr ''ZIP'')]"

definition d_zip_b :: json where
  "d_zip_b = JObj [(''url'', JStr ''http://p/more-2023.zip''), (''format'', JStr ''zip'')]"

definition d_zip_c :: json where
  "d_zip_c = JObj [(''url'', JStr ''http://p/docs-2023.zip''), (''format'', JStr ''zip'')]"

definition d_csv :: json where
  "d_csv = JObj [(''url'', JStr ''http://p/Trips-2023.CSV''), (''format'', JStr ''CSV'')]"

definition d_gone :: json where
  "d_gone = JObj [(''url'', JStr ''http://p/gone-2023.xlsx''), (''format'', JStr ''XLSX'')]"

definition d_readme :: json where
  "d_readme = JObj [(''url'', JStr ''http://p/ReadMe-2023.csv''), (''format'', JStr ''CSV'')]"

definition d_old :: json where
  "d_old = JObj [(''url'', JStr ''http://p/bike-2022.zip''), (''format'', JStr ''ZIP'')]"

definition d_pdf :: json where
  "d_pdf = JObj [(''url'', JStr ''http://p/bike-2023.pdf''), (''format'', JStr ''PDF'')]"

definition d_nourl :: json where
  "d_nourl = JObj [(''format'', JStr ''CSV'')]"

section \<open>The loops, characterised\<close>

lemma requests_of_append: "requests_of (xs @ ys) = requests_of xs @ requests_of ys"
  by (induction xs rule: requests_of.induct) auto

lemma zip_loop_members:
  "zip_loop e z ys ns dfs = Inr out \<Longrightarrow>
     map Inr out = map Inr dfs @ map (read_member e z) (filter (member_ok ys) ns)"
  by (induction ns arbitrary: dfs) (auto split: if_splits sum.splits)


lemma zip_loop_first_failure:
  "\<forall>m\<in>set pre. member_ok ys m \<longrightarrow> (\<exists>t. read_member e z m = Inr t) \<Longrightarrow>
   member_ok ys n \<Longrightarrow> read_member e z n = Inl err \<Longrightarrow>
     zip_loop e z ys (pre @ n # post) dfs = Inl err"
  by (induction pre arbitrary: dfs) auto


lemma loop_acc:
  "get_files_loop e y ds dfs evs =
     (case get_files_loop e y ds [] [] of (ev', r) \<Rightarrow> (evs @ ev', map_sum id ((@) dfs) r))"
proof (induction ds arbitrary: dfs evs)
  case Nil
  show ?case by simp
next
  case (Cons v ds)
  note IH = Cons.IH
  show ?case
  proof (cases "get_url v")
    case (Inl err)
    then show ?thesis by simp
  next
    case (Inr url)
    show ?thesis
    proof (cases "skipped (str_int y) (lower url)")
      case True
      with Inr show ?thesis using IH [of dfs evs] by simp
    next
      case False
      show ?thesis
      proof (cases "try_body e y v url")
        case (Inl err)
        show ?thesis
          using Inr False Inl
            IH [of dfs "evs @ [Requested url, PrintedFailed url err]"]
            IH [of "[]" "[Requested url, PrintedFailed url err]"]
          by (simp split: prod.splits) (cases "snd (get_files_loop e y ds [] [])"; simp)
      next
        case (Inr new)
        show ?thesis
          using \<open>get_url v = Inr url\<close> False Inr
            IH [of "dfs @ new" "evs @ [Requested url]"]
            IH [of "new" "[Requested url]"]
          by (simp split: prod.splits) (cases "snd (get_files_loop e y ds [] [])"; simp)
      qed
    qed
  qed
qed

lemma loop_append:
  "get_files_loop e y (ds1 @ ds2) dfs evs =
     (case get_files_loop e y ds1 dfs evs of
        (ev1, Inl err) \<Rightarrow> (ev1, Inl err)
      | (ev1, Inr d1) \<Rightarrow> get_files_loop e y ds2 d1 ev1)"
  by (induction ds1 arbitrary: dfs evs) (auto split: sum.splits prod.splits)

lemma skipped_iff:
  "\<not> skipped ys ul \<longleftrightarrow>
     sublist ys ul \<and> \<not> sublist ''readme'' ul
       \<and> (suffix ''.zip'' ul \<or> suffix ''.xlsx'' ul \<or> suffix ''.csv'' ul)"
  by (simp add: skipped_def endswith_def)

lemma member_ok_iff:
  "member_ok ys n \<longleftrightarrow> (suffix ''.csv'' n \<or> suffix ''.xlsx'' n) \<and> sublist ys n"
  by (simp add: member_ok_def endswith_def)

lemma loop_requests:
  "map get_url ds = map Inr urls \<Longrightarrow>
     (\<exists>out. snd (get_files_loop e y ds dfs evs) = Inr out) \<and>
     requests_of (fst (get_files_loop e y ds dfs evs)) =
       requests_of evs @ filter (\<lambda>u. \<not> skipped (str_int y) (lower u)) urls"
proof (induction ds arbitrary: urls dfs evs)
  case Nil
  then show ?case by simp
next
  case (Cons v ds)
  then obtain u us where urls: "urls = u # us" and u: "get_url v = Inr u"
    and us: "map get_url ds = map Inr us"
    by (cases urls) auto
  note IH = Cons.IH [OF us]
  show ?case
  proof (cases "skipped (str_int y) (lower u)")
    case True
    with u urls IH [of dfs evs] show ?thesis by simp
  next
    case False
    show ?thesis
    proof (cases "try_body e y v u")
      case (Inl err)
      with u urls False IH [of dfs "evs @ [Requested u, PrintedFailed u err]"]
      show ?thesis by (simp add: requests_of_append)
    next
      case (Inr new)
      with u urls False IH [of "dfs @ new" "evs @ [Requested u]"]
      show ?thesis by (simp add: requests_of_append)
    qed
  qed
qed

lemma get_files_failed_descriptor:
  assumes u: "get_url v = Inr u"
    and sel: "\<not> skipped (str_int year) (lower u)"
    and fail: "try_body e year v u = Inl err"
    and before: "get_files e (JArr ds1) year = (ev1, Inr t1)"
    and after: "get_files e (JArr ds2) year = (ev2, r2)"
  shows "get_files e (JArr (ds1 @ v # ds2)) year =
           (ev1 @ [Requested u, PrintedFailed u err] @ ev2, map_sum id ((@) t1) r2)"
proof -
  from before have b: "get_files_loop e year ds1 [] [] = (ev1, Inr t1)"
    by (simp add: get_files_def)
  from after have a: "get_files_loop e year ds2 [] [] = (ev2, r2)"
    by (simp add: get_files_def)
  have "get_files_loop e year (ds1 @ v # ds2) [] [] = get_files_loop e year (v # ds2) t1 ev1"
    by (simp add: loop_append b)
  also have "\<dots> = get_files_loop e year ds2 t1 (ev1 @ [Requested u, PrintedFailed u err])"
    using u sel fail by simp
  also have "\<dots> = (ev1 @ [Requested u, PrintedFailed u err] @ ev2, map_sum id ((@) t1) r2)"
    by (subst loop_acc) (simp add: a)
  finally show ?thesis
    by (simp add: get_files_def)
qed

lemmas strs = str_int_def str_nat.simps digit_char_def lower_def lower_char_def
  suffix_to_prefix sublist_code

lemmas run = get_files_def get_url_def skipped_def strs endswith_def try_body_def dispatch_def
     extract_valid_dataframes_from_zip_def member_ok_def read_member_def parse_csv_def choose_encoding_def

lemma try_body_fails_iff:
  "try_body e year v u = Inl err \<longleftrightarrow>
     http_get e u = Inl err
     \<or> (\<exists>content. http_get e u = Inr content \<and> dispatch e year v content = Inl err)"
  by (auto simp: try_body_def split: sum.splits)

lemma zip_first_failure_try_body:
  assumes "getitem v ''format'' = Inr (JStr f)" and "lower f = ''zip''"
    and "http_get e u = Inr content" and "zip_open e content = Inr z"
    and "namelist z = pre @ n # post"
    and "\<forall>m\<in>set pre. member_ok (str_int year) m \<longrightarrow> (\<exists>t. read_member e z m = Inr t)"
    and "member_ok (str_int year) n"
    and "read_member e z n = Inl err"
  shows "try_body e year v u = Inl err"
proof -
  from zip_loop_first_failure [OF assms(6-8), of post "[]"] assms(5)
  have "zip_loop e z (str_int year) (namelist z) [] = Inl err"
    by simp
  with assms(1-4) show ?thesis
    by (simp add: try_body_def dispatch_def extract_valid_dataframes_from_zip_def)
qed

lemma choose_encoding_eq:
  "choose_encoding d =
     (case d ''encoding'' of
        None \<Rightarrow> Some ''utf-8''
      | Some None \<Rightarrow> None
      | Some (Some enc) \<Rightarrow> if lower enc = ''ascii'' then Some ''cp1252'' else Some enc)"
proof -
  have "lower enc = ''ascii'' \<Longrightarrow> enc \<noteq> []" for enc
    by (auto simp: lower_def)
  moreover have "lower ''utf-8'' \<noteq> ''ascii''"
    by (simp add: lower_def lower_char_def)
  ultimately show ?thesis
    by (auto simp: choose_encoding_def split: option.splits)
qed

lemma loop_all_fail:
  "\<forall>v\<in>set ds. \<exists>u. get_url v = Inr u
       \<and> (skipped (str_int year) (lower u) \<or> (\<exists>err. try_body e year v u = Inl err)) \<Longrightarrow>
   snd (get_files_loop e year ds dfs evs) = Inr dfs"
proof (induction ds arbitrary: evs)
  case Nil
  show ?case by simp
next
  case (Cons v ds)
  then obtain u where u: "get_url v = Inr u"
    and c: "skipped (str_int year) (lower u) \<or> (\<exists>err. try_body e year v u = Inl err)"
    by auto
  from Cons.prems have rest: "\<forall>v\<in>set ds. \<exists>u. get_url v = Inr u
       \<and> (skipped (str_int year) (lower u) \<or> (\<exists>err. try_body e year v u = Inl err))"
    by simp
  note IH = Cons.IH [OF rest]
  show ?case
  proof (cases "skipped (str_int year) (lower u)")
    case True
    with u IH [of evs] show ?thesis by simp
  next
    case False
    with c obtain err where "try_body e year v u = Inl err" by blast
    with u False IH [of "evs @ [Requested u, PrintedFailed u err]"] show ?thesis by simp
  qed
qed

lemma zip_loop_traced_erase:
  "map_sum id (map snd) (zip_loop_traced e z ys ns dfs) = zip_loop e z ys ns (map snd dfs)"
  by (induction ns arbitrary: dfs) (auto split: sum.splits)

lemma extract_traced_erase:
  "map_sum id (map snd) (extract_traced e c y) = extract_valid_dataframes_from_zip e c y"
  using zip_loop_traced_erase [of e _ "str_int y" _ "[]"]
  by (simp add: extract_traced_def extract_valid_dataframes_from_zip_def split: sum.splits)

lemma try_body_traced_erase:
  "map_sum id (map snd) (try_body_traced e y v u) = try_body e y v u"
proof -
  have "map_sum id (map snd) (map_sum id (map (\<lambda>nt. (FromMember u (fst nt), snd nt))) r)
          = map_sum id (map snd) r" for r :: "py_error + (string \<times> table) list"
    by (cases r) (simp_all add: comp_def)
  moreover have "map_sum id (map snd) (map_sum id (\<lambda>df. [(FromUrl u, df)]) r)
          = map_sum id (\<lambda>df. [df]) r" for r :: "py_error + table"
    by (cases r) simp_all
  ultimately show ?thesis
    by (simp add: try_body_traced_def try_body_def dispatch_traced_def dispatch_def
        extract_traced_erase split: sum.splits)
qed

lemma get_files_loop_traced_erase:
  "map_prod id (map_sum id (map snd)) (get_files_loop_traced e y ds dfs evs)
     = get_files_loop e y ds (map snd dfs) evs"
proof (induction ds arbitrary: dfs evs)
  case Nil
  show ?case by simp
next
  case (Cons v ds)
  show ?case
  proof (cases "get_url v")
    case (Inl err)
    then show ?thesis by simp
  next
    case (Inr u)
    show ?thesis
    proof (cases "skipped (str_int y) (lower u)")
      case True
      with Inr Cons.IH [of dfs evs] show ?thesis by simp
    next
      case False
      show ?thesis
      proof (cases "try_body_traced e y v u")
        case (Inl err)
        with try_body_traced_erase [of e y v u] have "try_body e y v u = Inl err"
          by simp
        with \<open>get_url v = Inr u\<close> False Inl
          Cons.IH [of dfs "evs @ [Requested u, PrintedFailed u err]"]
        show ?thesis by simp
      next
        case (Inr new)
        with try_body_traced_erase [of e y v u] have "try_body e y v u = Inr (map snd new)"
          by simp
        with \<open>get_url v = Inr u\<close> False Inr
          Cons.IH [of "dfs @ new" "evs @ [Requested u]"]
        show ?thesis by simp
      qed
    qed
  qed
qed

lemma get_files_traced_erase:
  "map_prod id (map_sum id (map snd)) (get_files_traced e rs y) = get_files e rs y"
  using get_files_loop_traced_erase [of e y _ "[]" "[]"]
  by (simp add: get_files_traced_def get_files_def split: sum.splits)

lemma lower_char_inv:
  "lower_char x = c \<Longrightarrow> c \<notin> set ''abcdefghijklmnopqrstuvwxyz'' \<Longrightarrow> x = c"
  unfolding lower_char_def by (auto split: option.splits if_splits)

lemma digit_char_in: "d < 10 \<Longrightarrow> digit_char d \<in> set ''0123456789''"
proof -
  assume "d < 10"
  then have "d \<in> {0, 1, 2, 3, 4, 5, 6, 7, 8, 9}" by auto
  then show ?thesis
    unfolding digit_char_def by auto
qed

lemma str_nat_chars: "set (str_nat n) \<subseteq> set ''0123456789''"
proof (induction n rule: str_nat.induct)
  case (1 n)
  show ?case
  proof (cases "n < 10")
    case True
    with digit_char_in [of n] show ?thesis
      by (subst str_nat.simps) simp
  next
    case False
    have "n mod 10 < 10" by simp
    with False "1.IH" digit_char_in [of "n mod 10"] show ?thesis
      by (subst str_nat.simps) simp
  qed
qed

lemma digits_subset: "set ''0123456789'' \<subseteq> set ''-0123456789''"
  by (simp add: subset_insertI2)

lemma str_int_chars: "set (str_int i) \<subseteq> set ''-0123456789''"
proof (cases "i < 0")
  case True
  then have eq: "str_int i = CHR ''-'' # str_nat (nat (- i))"
    by (simp add: str_int_def)
  have "set (str_nat (nat (- i))) \<subseteq> set ''-0123456789''"
    using str_nat_chars digits_subset by (rule subset_trans)
  then show ?thesis
    unfolding eq by simp
next
  case False
  then have eq: "str_int i = str_nat (nat i)"
    by (simp add: str_int_def)
  show ?thesis
    unfolding eq using str_nat_chars digits_subset by (rule subset_trans)
qed

lemma sublist_lower_year:
  assumes "sublist (str_int y) (lower u)"
  shows "sublist (str_int y) u"
proof -
  from assms obtain xs where xs: "sublist xs u" and eq: "str_int y = map lower_char xs"
    unfolding lower_def by (auto dest: sublist_map_rightE)
  have "lower_char x = x" if "x \<in> set xs" for x
  proof -
    from that eq have "lower_char x \<in> set (str_int y)" by simp
    with str_int_chars [of y] have "lower_char x \<in> set ''-0123456789''" by blast
    then have "lower_char x \<notin> set ''abcdefghijklmnopqrstuvwxyz''" by auto
    with lower_char_inv [of x "lower_char x"] show ?thesis by simp
  qed
  then have "map lower_char xs = xs"
    by (simp add: map_idI)
  with xs eq show ?thesis by simp
qed

lemma sublist_readme_lower:
  assumes "\<not> sublist ''readme'' (lower u)"
  shows "\<not> sublist ''readme'' u"
proof
  assume "sublist ''readme'' u"
  then have "sublist (map lower_char ''readme'') (map lower_char u)"
    by (rule map_mono_sublist)
  moreover have "map lower_char ''readme'' = ''readme''"
    by (simp add: lower_char_def)
  ultimately show False using assms by (simp add: lower_def)
qed

lemma zip_loop_traced_members:
  "zip_loop_traced e z ys ns dfs = Inr out \<Longrightarrow>
   \<forall>nt\<in>set dfs. member_ok ys (fst nt) \<and> read_member e z (fst nt) = Inr (snd nt) \<Longrightarrow>
   \<forall>nt\<in>set out. member_ok ys (fst nt) \<and> read_member e z (fst nt) = Inr (snd nt)"
proof (induction ns arbitrary: dfs)
  case Nil
  then show ?case by simp
next
  case (Cons n ns)
  show ?case
  proof (cases "member_ok ys n")
    case False
    with Cons.prems Cons.IH [of dfs] show ?thesis by simp
  next
    case True
    with Cons.prems(1) obtain df where df: "read_member e z n = Inr df"
      and rest: "zip_loop_traced e z ys ns (dfs @ [(n, df)]) = Inr out"
      by (auto split: sum.splits)
    from Cons.prems(2) True df
    have "\<forall>nt\<in>set (dfs @ [(n, df)]). member_ok ys (fst nt) \<and> read_member e z (fst nt) = Inr (snd nt)"
      by simp
    from Cons.IH [OF rest this] show ?thesis .
  qed
qed

lemma try_body_traced_origins:
  assumes "try_body_traced e y v u = Inr new" and "\<not> skipped (str_int y) (lower u)"
  shows "\<forall>ot\<in>set new. from_selected y (fst ot)"
proof -
  obtain content where c: "dispatch_traced e y v u content = Inr new"
    using assms(1) by (cases "http_get e u") (simp_all add: try_body_traced_def)
  obtain f where f: "getitem v ''format'' = Inr f"
    using c by (cases "getitem v ''format''") (simp_all add: dispatch_traced_def)
  obtain fmt where fmt: "py_lower f = Inr fmt"
    using c f by (cases "py_lower f") (simp_all add: dispatch_traced_def)
  from c f fmt
  have d: "(if fmt = ''zip'' then
                map_sum id (map (\<lambda>nt. (FromMember u (fst nt), snd nt)))
                  (extract_traced e content y)
              else if fmt = ''xlsx'' then
                map_sum id (\<lambda>df. [(FromUrl u, df)]) (read_excel e content)
              else if fmt = ''csv'' then
                map_sum id (\<lambda>df. [(FromUrl u, df)]) (parse_csv e content)
              else Inr []) = Inr new"
    by (simp add: dispatch_traced_def)
  show ?thesis
  proof (cases "fmt = ''zip''")
    case True
    with d obtain tagged where t: "extract_traced e content y = Inr tagged"
      and new: "new = map (\<lambda>nt. (FromMember u (fst nt), snd nt)) tagged"
      by (cases "extract_traced e content y") auto
    from t obtain z where "zip_loop_traced e z (str_int y) (namelist z) [] = Inr tagged"
      by (auto simp: extract_traced_def split: sum.splits)
    from zip_loop_traced_members [OF this]
    have "\<forall>nt\<in>set tagged. member_ok (str_int y) (fst nt)"
      by simp
    with new assms(2) show ?thesis
      by (auto simp: from_selected_def)
  next
    case False
    have single: "\<forall>ot\<in>set new. fst ot = FromUrl u"
      if "map_sum id (\<lambda>df. [(FromUrl u, df)]) r = Inr new" for r :: "py_error + table"
      using that by (cases r) auto
    from d False have "\<forall>ot\<in>set new. fst ot = FromUrl u"
    proof (cases "fmt = ''xlsx''")
      case True
      with d False have "map_sum id (\<lambda>df. [(FromUrl u, df)]) (read_excel e content) = Inr new"
        by simp
      then show ?thesis by (rule single)
    next
      case nx: False
      show ?thesis
      proof (cases "fmt = ''csv''")
        case True
        with d False nx have "map_sum id (\<lambda>df. [(FromUrl u, df)]) (parse_csv e content) = Inr new"
          by simp
        then show ?thesis by (rule single)
      next
        case False
        with d \<open>fmt \<noteq> ''zip''\<close> nx have "new = []" by simp
        then show ?thesis by simp
      qed
    qed
    with assms(2) show ?thesis
      by (simp add: from_selected_def)
  qed
qed

lemma get_files_loop_traced_origins:
  "get_files_loop_traced e y ds dfs evs = (evs', Inr out) \<Longrightarrow>
   \<forall>ot\<in>set dfs. from_selected y (fst ot) \<Longrightarrow>
   \<forall>ot\<in>set out. from_selected y (fst ot)"
proof (induction ds arbitrary: dfs evs)
  case Nil
  then show ?case by simp
next
  case (Cons v ds)
  from Cons.prems(1) obtain u where u: "get_url v = Inr u"
    by (cases "get_url v") auto
  show ?case
  proof (cases "skipped (str_int y) (lower u)")
    case True
    with u Cons.prems Cons.IH [of dfs evs] show ?thesis by simp
  next
    case False
    show ?thesis
    proof (cases "try_body_traced e y v u")
      case (Inl err)
      with u False Cons.prems
        Cons.IH [of dfs "evs @ [Requested u, PrintedFailed u err]"]
      show ?thesis by simp
    next
      case (Inr new)
      with u False Cons.prems(1)
      have rest: "get_files_loop_traced e y ds (dfs @ new) (evs @ [Requested u]) = (evs', Inr out)"
        by simp
      from try_body_traced_origins [OF Inr False] Cons.prems(2)
      have "\<forall>ot\<in>set (dfs @ new). from_selected y (fst ot)"
        by auto
      from Cons.IH [OF rest this] show ?thesis .
    qed
  qed
qed

lemma get_files_append:
  assumes "get_files e (JArr ds1) year = (ev1, Inr a)"
    and "get_files e (JArr ds2) year = (ev2, Inr b)"
  shows "get_files e (JArr (ds1 @ ds2)) year = (ev1 @ ev2, Inr (a @ b))"
proof -
  from assms have l1: "get_files_loop e year ds1 [] [] = (ev1, Inr a)"
    and l2: "get_files_loop e year ds2 [] [] = (ev2, Inr b)"
    by (simp_all add: get_files_def)
  have "get_files_loop e year (ds1 @ ds2) [] [] = get_files_loop e year ds2 a ev1"
    by (simp add: loop_append l1)
  also have "\<dots> = (ev1 @ ev2, Inr (a @ b))"
    by (subst loop_acc) (simp add: l2)
  finally show ?thesis
    by (simp add: get_files_def)
qed

lemma nth_concat_offset:
  "i < length xss \<Longrightarrow> j < length (xss ! i) \<Longrightarrow>
     concat xss ! (sum_list (map length (take i xss)) + j) = xss ! i ! j"
proof (induction xss arbitrary: i)
  case Nil
  then show ?case by simp
next
  case (Cons xs xss)
  show ?case
  proof (cases i)
    case 0
    with Cons.prems show ?thesis by (simp add: nth_append)
  next
    case (Suc k)
    with Cons.prems Cons.IH [of k] show ?thesis
      by (simp add: nth_append add.assoc)
  qed
qed

lemma union_columns_set: "set (union_columns ts) = (\<Union>t\<in>set ts. set (columns t))"
  by (simp add: union_columns_def)

lemma cell_at_realigned:
  "c \<in> set cols \<Longrightarrow> cell_at cols (map f cols) c = f c"
  by (simp add: cell_at_def map_of_zip_map)

lemma nrows_fun: "nrows = (\<lambda>t. length (rows t))"
  by (rule ext) (simp add: nrows_def)

lemma nrows_pd_concat: "nrows (pd_concat ts) = sum_list (map nrows ts)"
  by (simp add: pd_concat_def nrows_fun Let_def length_concat comp_def)

lemma index_pd_concat: "index (pd_concat ts) = [0 ..< nrows (pd_concat ts)]"
  by (simp add: pd_concat_def nrows_def Let_def)

lemma row_pd_concat:
  assumes "i < length ts" and "j < nrows (ts ! i)"
  shows "rows (pd_concat ts) ! (sum_list (map nrows (take i ts)) + j) =
           map (cell_at (columns (ts ! i)) (rows (ts ! i) ! j)) (union_columns ts)"
proof -
  let ?f = "\<lambda>t. map (\<lambda>r. map (cell_at (columns t) r) (union_columns ts)) (rows t)"
  have len: "map length (take i (map ?f ts)) = map nrows (take i ts)"
    by (simp add: take_map nrows_fun comp_def)
  from assms have "i < length (map ?f ts)" and "j < length (map ?f ts ! i)"
    by (simp_all add: nrows_def)
  from nth_concat_offset [OF this] assms show ?thesis
    by (simp add: pd_concat_def Let_def len nrows_def)
qed

lemma cell_pd_concat:
  assumes "i < length ts" and "j < nrows (ts ! i)" and "c \<in> set (columns (ts ! i))"
  shows "cell_at (columns (pd_concat ts))
           (rows (pd_concat ts) ! (sum_list (map nrows (take i ts)) + j)) c =
         cell_at (columns (ts ! i)) (rows (ts ! i) ! j) c"
proof -
  from assms(1,3) have "c \<in> set (union_columns ts)"
    by (auto simp: union_columns_set)
  moreover have "columns (pd_concat ts) = union_columns ts"
    by (simp add: pd_concat_def Let_def)
  ultimately show ?thesis
    by (simp add: row_pd_concat [OF assms(1,2)] cell_at_realigned)
qed

lemma zip_descriptor_tables:
  assumes "getitem v ''format'' = Inr (JStr f)" and "lower f = ''zip''"
    and "http_get e u = Inr content" and "zip_open e content = Inr z"
    and "try_body e year v u = Inr new"
  shows "map Inr new = map (read_member e z) (filter (member_ok (str_int year)) (namelist z))"
proof -
  from assms have "zip_loop e z (str_int year) (namelist z) [] = Inr new"
    by (simp add: try_body_def dispatch_def extract_valid_dataframes_from_zip_def)
  from zip_loop_members [OF this] show ?thesis by simp
qed

section \<open>The claims\<close>

text \<open>
  C1. For every year and every catalog whose descriptors each hold a string under
  \<open>"url"\<close>, the URLs that \<open>get_files\<close> fetches are, in catalog order, exactly those whose
  lowercased form contains the decimal string of the year, does not contain
  \<open>"readme"\<close>, and ends with \<open>.zip\<close>, \<open>.xlsx\<close> or \<open>.csv\<close>; every other descriptor is
  skipped without a fetch.
\<close>

theorem get_files_selects:
  assumes "map get_url ds = map Inr urls"
  shows "requests_of (fst (get_files e (JArr ds) year)) =
           filter (\<lambda>u. sublist (str_int year) (lower u) \<and> \<not> sublist ''readme'' (lower u)
                        \<and> (suffix ''.zip'' (lower u) \<or> suffix ''.xlsx'' (lower u)
                             \<or> suffix ''.csv'' (lower u))) urls"
  using loop_requests [OF assms, of e year "[]" "[]"]
  by (simp add: get_files_def skipped_iff)

theorem get_files_selects_witness:
  "requests_of (fst (get_files portal (JArr [d_old, d_zip_a, d_readme, d_pdf, d_csv]) 2023)) =
     [''http://p/bike-2023.zip'', ''http://p/Trips-2023.CSV'']"
proof -
  have "map get_url [d_old, d_zip_a, d_readme, d_pdf, d_csv] =
          map Inr [''http://p/bike-2022.zip'', ''http://p/bike-2023.zip'',
                   ''http://p/ReadMe-2023.csv'', ''http://p/bike-2023.pdf'',
                   ''http://p/Trips-2023.CSV'']"
    by (simp add: d_old_def d_zip_a_def d_readme_def d_pdf_def d_csv_def get_url_def)
  from get_files_selects [OF this, of portal 2023] show ?thesis
    by (simp add: str_int_def str_nat.simps digit_char_def lower_def lower_char_def
        suffix_to_prefix sublist_code)
qed

text \<open>
  C5. For every CSV content, at both places where the code reads CSV (a \<open>.csv\<close> member
  of a ZIP, lines 44-51, and a resource of format \<open>csv\<close>, lines 76-81), the encoding the
  content is decoded with is \<open>cp1252\<close> when the detector, run on the first 2000 bytes,
  reports ASCII in any letter case, and is the detector's result unchanged when it
  reports any other encoding. When the detector is inconclusive (it reports the encoding
  \<open>None\<close>, or no encoding entry at all) the content is decoded as \<open>utf-8\<close>: with no
  entry the code itself puts \<open>utf-8\<close>, and a reported \<open>None\<close> is handed on to
  \<open>pd.read_csv\<close>, for which \<open>encoding=None\<close> means UTF-8; that default of the reader
  is the hypothesis.
\<close>

theorem csv_encoding_chosen:
  assumes "\<forall>c. read_csv e c None = read_csv e c (Some ''utf-8'')"
  shows "(detect e (take 2000 content) ''encoding'' = Some (Some enc) \<and> lower enc = ''ascii''
            \<longrightarrow> parse_csv e content = read_csv e content (Some ''cp1252''))
       \<and> (detect e (take 2000 content) ''encoding'' = Some (Some enc) \<and> lower enc \<noteq> ''ascii''
            \<longrightarrow> parse_csv e content = read_csv e content (Some enc))
       \<and> (detect e (take 2000 content) ''encoding'' = Some None
              \<or> detect e (take 2000 content) ''encoding'' = None
            \<longrightarrow> parse_csv e content = read_csv e content (Some ''utf-8''))
       \<and> (zopen z filename = Inr content \<and> suffix ''.csv'' filename
            \<longrightarrow> read_member e z filename = parse_csv e content)
       \<and> (getitem v ''format'' = Inr (JStr f) \<and> lower f = ''csv''
            \<longrightarrow> dispatch e year v content = map_sum id (\<lambda>df. [df]) (parse_csv e content))"
proof -
  have ascii: "detect e (take 2000 content) ''encoding'' = Some (Some enc) \<and> lower enc = ''ascii''
            \<longrightarrow> parse_csv e content = read_csv e content (Some ''cp1252'')"
    by (simp add: parse_csv_def choose_encoding_eq)
  have other: "detect e (take 2000 content) ''encoding'' = Some (Some enc) \<and> lower enc \<noteq> ''ascii''
            \<longrightarrow> parse_csv e content = read_csv e content (Some enc)"
    by (simp add: parse_csv_def choose_encoding_eq)
  have none: "detect e (take 2000 content) ''encoding'' = Some None
              \<or> detect e (take 2000 content) ''encoding'' = None
            \<longrightarrow> parse_csv e content = read_csv e content (Some ''utf-8'')"
    using assms by (auto simp: parse_csv_def choose_encoding_eq)
  have member: "zopen z filename = Inr content \<and> suffix ''.csv'' filename
            \<longrightarrow> read_member e z filename = parse_csv e content"
    by (simp add: read_member_def endswith_def)
  have resource: "getitem v ''format'' = Inr (JStr f) \<and> lower f = ''csv''
            \<longrightarrow> dispatch e year v content = map_sum id (\<lambda>df. [df]) (parse_csv e content)"
    by (simp add: dispatch_def)
  from ascii other none member resource show ?thesis
    by blast
qed

theorem csv_encoding_chosen_witness:
  "parse_csv portal ''jan'' = read_csv portal ''jan'' (Some ''cp1252'')
   \<and> read_csv portal ''jan'' (Some ''cp1252'') = Inr t_jan
   \<and> read_csv portal ''jan'' (Some ''ascii'') = Inl (LibraryError ''ParserError'')
   \<and> parse_csv portal ''doc'' = read_csv portal ''doc'' (Some ''utf-8'')
   \<and> read_member portal arch_c ''readme-2023.csv'' = parse_csv portal ''doc''
   \<and> dispatch portal 2023 d_csv ''q1'' = map_sum id (\<lambda>df. [df]) (parse_csv portal ''q1'')"
proof -
  have dflt: "\<forall>c. read_csv portal c None = read_csv portal c (Some ''utf-8'')"
    by (simp add: portal_def)
  have dj: "detect portal (take 2000 ''jan'') ''encoding'' = Some (Some ''ascii'')"
    by (simp add: portal_def)
  have la: "lower ''ascii'' = ''ascii''"
    by (simp add: lower_def lower_char_def)
  have dd: "detect portal (take 2000 ''doc'') ''encoding'' = Some None"
    by (simp add: portal_def)
  have zo: "zopen arch_c ''readme-2023.csv'' = Inr ''doc''"
    by (simp add: arch_c_def)
  have sf: "suffix ''.csv'' ''readme-2023.csv''"
    by (simp add: suffix_to_prefix)
  have fm: "getitem d_csv ''format'' = Inr (JStr ''CSV'')"
    by (simp add: d_csv_def)
  have lc: "lower ''CSV'' = ''csv''"
    by (simp add: lower_def lower_char_def)
  have r1: "read_csv portal ''jan'' (Some ''cp1252'') = Inr t_jan"
    by (simp add: portal_def)
  have r2: "read_csv portal ''jan'' (Some ''ascii'') = Inl (LibraryError ''ParserError'')"
    by (simp add: portal_def)
  from csv_encoding_chosen [OF dflt, of "''jan''" "''ascii''"] dj la
  have "parse_csv portal ''jan'' = read_csv portal ''jan'' (Some ''cp1252'')"
    by blast
  moreover from csv_encoding_chosen [OF dflt, of "''doc''" _ arch_c "''readme-2023.csv''"] dd zo sf
  have "parse_csv portal ''doc'' = read_csv portal ''doc'' (Some ''utf-8'')"
    and "read_member portal arch_c ''readme-2023.csv'' = parse_csv portal ''doc''"
    by blast+
  moreover from csv_encoding_chosen [OF dflt, of "''q1''" _ _ _ d_csv "''CSV''" 2023] fm lc
  have "dispatch portal 2023 d_csv ''q1'' = map_sum id (\<lambda>df. [df]) (parse_csv portal ''q1'')"
    by blast
  ultimately show ?thesis
    using r1 r2 by blast
qed

text \<open>
  C6 (as the code has it). \<open>get_metadata\<close> returns a value exactly when the fetch
  succeeds, the body parses to a JSON object, its \<open>"success"\<close> entry is the boolean
  \<open>true\<close>, its \<open>"result"\<close> entry is an object, and that object has a \<open>"resources"\<close>
  entry; the value returned is that entry, unchanged. In every other case it raises.
\<close>

theorem get_metadata_returns_iff:
  "get_metadata e package_url = Inr resources \<longleftrightarrow>
     (\<exists>body kvs rkvs.
        http_get e package_url = Inr body \<and> json_of e body = Inr (JObj kvs)
        \<and> map_of kvs ''success'' = Some (JBool True)
        \<and> map_of kvs ''result'' = Some (JObj rkvs)
        \<and> map_of rkvs ''resources'' = Some resources)"
proof
  assume "get_metadata e package_url = Inr resources"
  then obtain body data res where b: "http_get e package_url = Inr body"
    and d: "json_of e body = Inr data"
    and s: "dict_get_success data = Inr (JBool True)"
    and r: "getitem data ''result'' = Inr res"
    and rs: "getitem res ''resources'' = Inr resources"
    by (auto simp: get_metadata_def split: sum.splits if_splits)
  from s obtain kvs where data: "data = JObj kvs"
    by (cases data) auto
  from rs obtain rkvs where res: "res = JObj rkvs"
    by (cases res) auto
  from s data have "map_of kvs ''success'' = Some (JBool True)"
    by (auto split: option.splits)
  moreover from r data res have "map_of kvs ''result'' = Some (JObj rkvs)"
    by (auto split: option.splits)
  moreover from rs res have "map_of rkvs ''resources'' = Some resources"
    by (auto split: option.splits)
  ultimately show "\<exists>body kvs rkvs.
        http_get e package_url = Inr body \<and> json_of e body = Inr (JObj kvs)
        \<and> map_of kvs ''success'' = Some (JBool True)
        \<and> map_of kvs ''result'' = Some (JObj rkvs)
        \<and> map_of rkvs ''resources'' = Some resources"
    using b d data by blast
next
  assume "\<exists>body kvs rkvs.
        http_get e package_url = Inr body \<and> json_of e body = Inr (JObj kvs)
        \<and> map_of kvs ''success'' = Some (JBool True)
        \<and> map_of kvs ''result'' = Some (JObj rkvs)
        \<and> map_of rkvs ''resources'' = Some resources"
  then show "get_metadata e package_url = Inr resources"
    by (auto simp: get_metadata_def)
qed

theorem get_metadata_returns_iff_witness:
  "get_metadata portal ''http://p/pkg'' =
     Inr (JArr [JObj [(''url'', JStr ''http://p/bike-2023.zip'')]])"
proof -
  have "\<exists>body kvs rkvs.
        http_get portal ''http://p/pkg'' = Inr body \<and> json_of portal body = Inr (JObj kvs)
        \<and> map_of kvs ''success'' = Some (JBool True)
        \<and> map_of kvs ''result'' = Some (JObj rkvs)
        \<and> map_of rkvs ''resources'' = Some (JArr [JObj [(''url'', JStr ''http://p/bike-2023.zip'')]])"
    by (simp add: portal_def good_catalog_def)
  then show ?thesis
    by (simp only: get_metadata_returns_iff)
qed

text \<open>
  C6 as stated fails: a body that is valid JSON, with \<open>"success"\<close> present and equal to
  \<open>1\<close> (neither absent nor \<open>false\<close>) and with \<open>"result"\<close> and \<open>"resources"\<close> present,
  makes \<open>get_metadata\<close> raise.
\<close>

theorem get_metadata_truthy_success_counterexample:
  "json_of portal ''odd'' = Inr odd_catalog
   \<and> getitem odd_catalog ''success'' = Inr (JNum 1)
   \<and> getitem odd_catalog ''result'' =
       Inr (JObj [(''resources'', JArr [JObj [(''url'', JStr ''http://p/bike-2023.zip'')]])])
   \<and> getitem (JObj [(''resources'', JArr [JObj [(''url'', JStr ''http://p/bike-2023.zip'')]])])
         ''resources'' = Inr (JArr [JObj [(''url'', JStr ''http://p/bike-2023.zip'')]])
   \<and> get_metadata portal ''http://p/odd'' = Inl AssertionError"
  by (simp add: portal_def odd_catalog_def get_metadata_def)



text \<open>
  C10. A descriptor that is a dict without the key \<open>"url"\<close> makes \<open>get_files\<close>, and with
  it \<open>create_df\<close>, end with an uncaught error. When the descriptors before it were gone
  through without an uncaught error, whatever they fetched or failed to fetch, the error
  is the \<open>KeyError\<close> of line 61; their DataFrames are lost with it and no later
  descriptor is looked at.
\<close>

theorem get_files_missing_url_aborts:
  assumes "map_of kvs ''url'' = None"
  shows "(\<exists>err. snd (get_files e (JArr (ds1 @ JObj kvs # ds2)) year) = Inl err
                \<and> snd (create_df e (JArr (ds1 @ JObj kvs # ds2)) year) = Inl err)
       \<and> (\<forall>ev1 t1. get_files e (JArr ds1) year = (ev1, Inr t1) \<longrightarrow>
             get_files e (JArr (ds1 @ JObj kvs # ds2)) year = (ev1, Inl (KeyError ''url''))
             \<and> create_df e (JArr (ds1 @ JObj kvs # ds2)) year = (ev1, Inl (KeyError ''url'')))"
proof -
  have u: "get_url (JObj kvs) = Inl (KeyError ''url'')"
    using assms by (simp add: get_url_def)
  have step: "get_files_loop e year (JObj kvs # ds2) dfs evs = (evs, Inl (KeyError ''url''))"
    for dfs evs
    using u by simp
  obtain ev r where l1: "get_files_loop e year ds1 [] [] = (ev, r)"
    by (cases "get_files_loop e year ds1 [] []")
  have whole: "get_files e (JArr (ds1 @ JObj kvs # ds2)) year =
                 (case r of Inl err \<Rightarrow> (ev, Inl err) | Inr d1 \<Rightarrow> (ev, Inl (KeyError ''url'')))"
    by (cases r) (simp_all add: get_files_def loop_append l1 u)
  have first: "\<exists>err. snd (get_files e (JArr (ds1 @ JObj kvs # ds2)) year) = Inl err
                \<and> snd (create_df e (JArr (ds1 @ JObj kvs # ds2)) year) = Inl err"
    by (cases r) (simp_all add: whole create_df_def)
  have second: "\<forall>ev1 t1. get_files e (JArr ds1) year = (ev1, Inr t1) \<longrightarrow>
             get_files e (JArr (ds1 @ JObj kvs # ds2)) year = (ev1, Inl (KeyError ''url''))
             \<and> create_df e (JArr (ds1 @ JObj kvs # ds2)) year = (ev1, Inl (KeyError ''url''))"
  proof (intro allI impI)
    fix ev1 t1
    assume "get_files e (JArr ds1) year = (ev1, Inr t1)"
    with l1 have "ev = ev1" and "r = Inr t1"
      by (simp_all add: get_files_def)
    then show "get_files e (JArr (ds1 @ JObj kvs # ds2)) year = (ev1, Inl (KeyError ''url''))
             \<and> create_df e (JArr (ds1 @ JObj kvs # ds2)) year = (ev1, Inl (KeyError ''url''))"
      by (simp add: whole create_df_def)
  qed
  from first second show ?thesis by blast
qed

theorem get_files_missing_url_aborts_witness:
  "get_files portal (JArr [d_csv]) 2023 = ([Requested ''http://p/Trips-2023.CSV''], Inr [t_q1])
   \<and> create_df portal (JArr ([d_csv] @ d_nourl # [d_zip_a])) 2023 =
       ([Requested ''http://p/Trips-2023.CSV''], Inl (KeyError ''url''))"
proof -
  have one: "get_files portal (JArr [d_csv]) 2023 = ([Requested ''http://p/Trips-2023.CSV''], Inr [t_q1])"
    by (simp add: d_csv_def portal_def run)
  have "map_of [(''format'', JStr ''CSV'')] ''url'' = None"
    by simp
  from get_files_missing_url_aborts [OF this, of portal "[d_csv]" "[d_zip_a]" 2023] one
  show ?thesis by (simp add: d_nourl_def)
qed

text \<open>
  C3. Let a descriptor pass the filter of \<open>get_files\<close>, and let its fetch fail, or its
  fetch succeed and the handling of its content fail. Then \<open>get_files\<close> on a catalog
  holding it does what it does on the catalog without it, except that the fetch and the
  printed failure appear at its place: the DataFrames of the descriptors before it and
  after it are all in the result, and the failure itself never ends the build.
\<close>

theorem get_files_isolates_failure:
  assumes "get_url v = Inr u"
    and "sublist (str_int year) (lower u)"
    and "\<not> sublist ''readme'' (lower u)"
    and "suffix ''.zip'' (lower u) \<or> suffix ''.xlsx'' (lower u) \<or> suffix ''.csv'' (lower u)"
    and "http_get e u = Inl err
         \<or> (\<exists>content. http_get e u = Inr content \<and> dispatch e year v content = Inl err)"
    and "get_files e (JArr ds1) year = (ev1, Inr t1)"
    and "get_files e (JArr ds2) year = (ev2, r2)"
  shows "get_files e (JArr (ds1 @ v # ds2)) year =
           (ev1 @ [Requested u, PrintedFailed u err] @ ev2, map_sum id ((@) t1) r2)"
proof -
  from assms(2-4) have sel: "\<not> skipped (str_int year) (lower u)"
    by (simp add: skipped_iff)
  from assms(5) have fail: "try_body e year v u = Inl err"
    by (simp add: try_body_fails_iff)
  show ?thesis
    by (rule get_files_failed_descriptor [OF assms(1) sel fail assms(6,7)])
qed

theorem get_files_isolates_failure_witness:
  "get_files portal (JArr ([d_zip_a] @ d_gone # [d_csv])) 2023 =
     ([Requested ''http://p/bike-2023.zip'',
       Requested ''http://p/gone-2023.xlsx'',
       PrintedFailed ''http://p/gone-2023.xlsx'' (LibraryError ''ConnectionError''),
       Requested ''http://p/Trips-2023.CSV''],
      Inr [t_jan, t_feb, t_q1])"
proof -
  have u: "get_url d_gone = Inr ''http://p/gone-2023.xlsx''"
    by (simp add: d_gone_def get_url_def)
  have y: "sublist (str_int 2023) (lower ''http://p/gone-2023.xlsx'')"
    by (simp add: strs)
  have r: "\<not> sublist ''readme'' (lower ''http://p/gone-2023.xlsx'')"
    by (simp add: strs)
  have x: "suffix ''.zip'' (lower ''http://p/gone-2023.xlsx'')
           \<or> suffix ''.xlsx'' (lower ''http://p/gone-2023.xlsx'')
           \<or> suffix ''.csv'' (lower ''http://p/gone-2023.xlsx'')"
    by (simp add: strs)
  have f: "http_get portal ''http://p/gone-2023.xlsx'' = Inl (LibraryError ''ConnectionError'')
         \<or> (\<exists>content. http_get portal ''http://p/gone-2023.xlsx'' = Inr content
               \<and> dispatch portal 2023 d_gone content = Inl (LibraryError ''ConnectionError''))"
    by (simp add: portal_def)
  have b: "get_files portal (JArr [d_zip_a]) 2023 =
             ([Requested ''http://p/bike-2023.zip''], Inr [t_jan, t_feb])"
    by (simp add: d_zip_a_def portal_def arch_a_def run)
  have a: "get_files portal (JArr [d_csv]) 2023 =
             ([Requested ''http://p/Trips-2023.CSV''], Inr [t_q1])"
    by (simp add: d_csv_def portal_def run)
  from get_files_isolates_failure [OF u y r x f b a] show ?thesis
    by simp
qed

text \<open>
  C7 (as the code has it). When, in the archive of a ZIP resource that passed the
  filter, a member passing the member test cannot be read or parsed, and the members
  passing the test before it could, the whole ZIP descriptor contributes no DataFrame:
  those already read from the archive are dropped, the failure printed, once for the
  descriptor, is that of this first failing member whatever the members after it are,
  the DataFrames of the other descriptors are in the result, and the build goes on.
\<close>

theorem zip_member_failure_drops_archive:
  assumes "get_url v = Inr u"
    and "sublist (str_int year) (lower u)"
    and "\<not> sublist ''readme'' (lower u)"
    and "suffix ''.zip'' (lower u) \<or> suffix ''.xlsx'' (lower u) \<or> suffix ''.csv'' (lower u)"
    and "getitem v ''format'' = Inr (JStr f)" and "lower f = ''zip''"
    and "http_get e u = Inr content" and "zip_open e content = Inr z"
    and "namelist z = pre @ n # post"
    and "\<forall>m \<in> set pre.
           (suffix ''.csv'' m \<or> suffix ''.xlsx'' m) \<and> sublist (str_int year) m \<longrightarrow>
           (\<exists>t. read_member e z m = Inr t)"
    and "(suffix ''.csv'' n \<or> suffix ''.xlsx'' n) \<and> sublist (str_int year) n"
    and "read_member e z n = Inl err"
    and "get_files e (JArr ds1) year = (ev1, Inr t1)"
    and "get_files e (JArr ds2) year = (ev2, r2)"
  shows "extract_valid_dataframes_from_zip e content year = Inl err
       \<and> get_files e (JArr (ds1 @ v # ds2)) year =
           (ev1 @ [Requested u, PrintedFailed u err] @ ev2, map_sum id ((@) t1) r2)"
proof -
  from assms(2-4) have sel: "\<not> skipped (str_int year) (lower u)"
    by (simp add: skipped_iff)
  from assms(10) have pre: "\<forall>m\<in>set pre. member_ok (str_int year) m \<longrightarrow>
                              (\<exists>t. read_member e z m = Inr t)"
    by (simp add: member_ok_iff)
  from assms(11) have n: "member_ok (str_int year) n"
    by (simp add: member_ok_iff)
  from zip_loop_first_failure [OF pre n assms(12), of post "[]"] assms(8,9)
  have ex: "extract_valid_dataframes_from_zip e content year = Inl err"
    by (simp add: extract_valid_dataframes_from_zip_def)
  have fail: "try_body e year v u = Inl err"
    by (rule zip_first_failure_try_body [OF assms(5-9) pre n assms(12)])
  from ex get_files_failed_descriptor [OF assms(1) sel fail assms(13,14)]
  show ?thesis ..
qed

theorem zip_member_failure_drops_archive_witness:
  "get_files portal (JArr ([d_csv] @ d_zip_b # [d_zip_a])) 2023 =
     ([Requested ''http://p/Trips-2023.CSV'',
       Requested ''http://p/more-2023.zip'',
       PrintedFailed ''http://p/more-2023.zip'' (LibraryError ''ParserError''),
       Requested ''http://p/bike-2023.zip''],
      Inr [t_q1, t_jan, t_feb])
   \<and> read_member portal arch_b ''t-2023-01.csv'' = Inr t_jan
   \<and> read_member portal arch_b ''late-2023.xlsx'' = Inl (LibraryError ''BadZipFile'')"
proof -
  have u: "get_url d_zip_b = Inr ''http://p/more-2023.zip''"
    by (simp add: d_zip_b_def get_url_def)
  have y: "sublist (str_int 2023) (lower ''http://p/more-2023.zip'')"
    by (simp add: strs)
  have r: "\<not> sublist ''readme'' (lower ''http://p/more-2023.zip'')"
    by (simp add: strs)
  have x: "suffix ''.zip'' (lower ''http://p/more-2023.zip'')
           \<or> suffix ''.xlsx'' (lower ''http://p/more-2023.zip'')
           \<or> suffix ''.csv'' (lower ''http://p/more-2023.zip'')"
    by (simp add: strs)
  have fm: "getitem d_zip_b ''format'' = Inr (JStr ''zip'')"
    by (simp add: d_zip_b_def)
  have lf: "lower ''zip'' = ''zip''"
    by (simp add: strs)
  have g: "http_get portal ''http://p/more-2023.zip'' = Inr ''zipB''"
    by (simp add: portal_def)
  have z: "zip_open portal ''zipB'' = Inr arch_b"
    by (simp add: portal_def)
  have names: "namelist arch_b =
                 [''t-2023-01.csv''] @ ''bad-2023.csv'' # [''t-2023-02.xlsx'', ''late-2023.xlsx'']"
    by (simp add: arch_b_def)
  have first: "read_member portal arch_b ''t-2023-01.csv'' = Inr t_jan"
    by (simp add: read_member_def arch_b_def endswith_def suffix_to_prefix parse_csv_def
        choose_encoding_def lower_def lower_char_def portal_def)
  then have pre: "\<forall>m \<in> set [''t-2023-01.csv''].
           (suffix ''.csv'' m \<or> suffix ''.xlsx'' m) \<and> sublist (str_int 2023) m \<longrightarrow>
           (\<exists>t. read_member portal arch_b m = Inr t)"
    by simp
  have ok: "(suffix ''.csv'' ''bad-2023.csv'' \<or> suffix ''.xlsx'' ''bad-2023.csv'')
            \<and> sublist (str_int 2023) ''bad-2023.csv''"
    by (simp add: strs)
  have bad: "read_member portal arch_b ''bad-2023.csv'' = Inl (LibraryError ''ParserError'')"
    by (simp add: read_member_def arch_b_def endswith_def suffix_to_prefix parse_csv_def portal_def)
  have late: "read_member portal arch_b ''late-2023.xlsx'' = Inl (LibraryError ''BadZipFile'')"
    by (simp add: read_member_def arch_b_def)
  have b: "get_files portal (JArr [d_csv]) 2023 =
             ([Requested ''http://p/Trips-2023.CSV''], Inr [t_q1])"
    by (simp add: d_csv_def portal_def run)
  have a: "get_files portal (JArr [d_zip_a]) 2023 =
             ([Requested ''http://p/bike-2023.zip''], Inr [t_jan, t_feb])"
    by (simp add: d_zip_a_def portal_def arch_a_def run)
  from zip_member_failure_drops_archive [OF u y r x fm lf g z names pre ok bad b a] first late
  show ?thesis
    by simp
qed

text \<open>
  C7 as stated fails: in an archive whose first member parses and whose second member
  does not, the DataFrame of the first member is not in the result of \<open>get_files\<close>;
  \<open>create_df\<close> returns the empty frame.
\<close>

theorem zip_member_failure_counterexample:
  "zip_open portal ''zipB'' = Inr arch_b
   \<and> member_ok (str_int 2023) ''t-2023-01.csv''
   \<and> read_member portal arch_b ''t-2023-01.csv'' = Inr t_jan
   \<and> member_ok (str_int 2023) ''bad-2023.csv''
   \<and> read_member portal arch_b ''bad-2023.csv'' = Inl (LibraryError ''ParserError'')
   \<and> get_files portal (JArr [d_zip_b]) 2023 =
       ([Requested ''http://p/more-2023.zip'',
         PrintedFailed ''http://p/more-2023.zip'' (LibraryError ''ParserError'')], Inr [])
   \<and> create_df portal (JArr [d_zip_b]) 2023 =
       ([Requested ''http://p/more-2023.zip'',
         PrintedFailed ''http://p/more-2023.zip'' (LibraryError ''ParserError''),
         PrintedNoData 2023], Inr empty_frame)"
proof -
  have g: "get_files portal (JArr [d_zip_b]) 2023 =
       ([Requested ''http://p/more-2023.zip'',
         PrintedFailed ''http://p/more-2023.zip'' (LibraryError ''ParserError'')], Inr [])"
    by (simp add: d_zip_b_def portal_def arch_b_def run)
  have "zip_open portal ''zipB'' = Inr arch_b"
    by (simp add: portal_def)
  moreover have "member_ok (str_int 2023) ''t-2023-01.csv''"
    by (simp add: member_ok_def endswith_def strs)
  moreover have "read_member portal arch_b ''t-2023-01.csv'' = Inr t_jan"
    by (simp add: read_member_def arch_b_def endswith_def suffix_to_prefix parse_csv_def
        choose_encoding_def lower_def lower_char_def portal_def)
  moreover have "member_ok (str_int 2023) ''bad-2023.csv''"
    by (simp add: member_ok_def endswith_def strs)
  moreover have "read_member portal arch_b ''bad-2023.csv'' = Inl (LibraryError ''ParserError'')"
    by (simp add: read_member_def arch_b_def endswith_def suffix_to_prefix parse_csv_def portal_def)
  ultimately show ?thesis
    using g by (simp add: create_df_def)
qed

text \<open>
  C8. When \<open>get_files\<close> returns no DataFrame, \<open>create_df\<close> prints the message for the
  year and returns the empty frame, which has no rows and no columns; it raises nothing.
  That is the case in particular when every descriptor is skipped by the filter or fails
  inside \<open>try\<close>.
\<close>

theorem create_df_empty:
  "(get_files e resources year = (evs, Inr []) \<longrightarrow>
      create_df e resources year = (evs @ [PrintedNoData year], Inr empty_frame))
   \<and> rows empty_frame = [] \<and> columns empty_frame = []
   \<and> ((\<forall>v\<in>set ds. \<exists>u. get_url v = Inr u
          \<and> (skipped (str_int year) (lower u) \<or> (\<exists>err. try_body e year v u = Inl err))) \<longrightarrow>
       snd (get_files e (JArr ds) year) = Inr []
       \<and> snd (create_df e (JArr ds) year) = Inr empty_frame)"
proof -
  have "snd (create_df e (JArr ds) year) = Inr empty_frame"
    if "snd (get_files e (JArr ds) year) = Inr []"
    using that by (cases "get_files e (JArr ds) year") (simp add: create_df_def)
  then show ?thesis
    using loop_all_fail [of ds year e "[]" "[]"]
    by (auto simp: create_df_def empty_frame_def get_files_def)
qed

theorem create_df_empty_witness:
  "create_df portal (JArr [d_zip_a, d_csv]) 1999 = ([PrintedNoData 1999], Inr empty_frame)
   \<and> snd (create_df portal (JArr [d_gone, d_old]) 2023) = Inr empty_frame"
proof -
  have g: "get_files portal (JArr [d_zip_a, d_csv]) 1999 = ([], Inr [])"
    by (simp add: d_zip_a_def d_csv_def run)
  have "\<forall>v\<in>set [d_gone, d_old]. \<exists>u. get_url v = Inr u
          \<and> (skipped (str_int 2023) (lower u) \<or> (\<exists>err. try_body portal 2023 v u = Inl err))"
    by (simp add: d_gone_def d_old_def get_url_def skipped_def endswith_def strs try_body_def portal_def)
  with create_df_empty [of portal "JArr [d_zip_a, d_csv]" 1999 "[]" "[d_gone, d_old]"]
    create_df_empty [of portal "JArr [d_zip_a, d_csv]" 2023 "[]" "[d_gone, d_old]"] g
  show ?thesis by simp
qed

text \<open>
  C2 (as the code has it). Every DataFrame in the list that \<open>create_df\<close> concatenates
  was read from a resource whose URL contains the decimal string of the year and, in any
  letter case, does not contain \<open>readme\<close>; a DataFrame read from a member of a ZIP
  resource comes in addition from a member whose name contains the decimal string of the
  year. Member names are not tested for \<open>readme\<close>.
\<close>

theorem tables_come_from_year_sources:
  assumes "get_files_traced e resources year = (evs, Inr tagged)"
  shows "get_files e resources year = (evs, Inr (map snd tagged))
       \<and> (\<forall>ot \<in> set tagged.
             case fst ot of
               FromUrl u \<Rightarrow>
                 sublist (str_int year) u \<and> \<not> sublist ''readme'' u
                 \<and> \<not> sublist ''readme'' (lower u)
             | FromMember u n \<Rightarrow>
                 sublist (str_int year) u \<and> \<not> sublist ''readme'' u
                 \<and> \<not> sublist ''readme'' (lower u) \<and> sublist (str_int year) n)"
proof -
  from get_files_traced_erase [of e resources year] assms
  have plain: "get_files e resources year = (evs, Inr (map snd tagged))"
    by simp
  from assms obtain vals where "get_files_loop_traced e year vals [] [] = (evs, Inr tagged)"
    by (cases "py_iter resources") (simp_all add: get_files_traced_def)
  from get_files_loop_traced_origins [OF this]
  have sel: "\<forall>ot\<in>set tagged. from_selected year (fst ot)"
    by simp
  have url: "sublist (str_int year) u \<and> \<not> sublist ''readme'' u \<and> \<not> sublist ''readme'' (lower u)"
    if "\<not> skipped (str_int year) (lower u)" for u
    using that sublist_lower_year [of year u] sublist_readme_lower [of u]
    by (simp add: skipped_iff)
  have "case og of
          FromUrl u \<Rightarrow>
            sublist (str_int year) u \<and> \<not> sublist ''readme'' u \<and> \<not> sublist ''readme'' (lower u)
        | FromMember u n \<Rightarrow>
            sublist (str_int year) u \<and> \<not> sublist ''readme'' u
            \<and> \<not> sublist ''readme'' (lower u) \<and> sublist (str_int year) n"
    if "from_selected year og" for og
    using that url by (cases og) (simp_all add: from_selected_def member_ok_iff)
  with sel plain show ?thesis by blast
qed

theorem tables_come_from_year_sources_witness:
  "get_files portal (JArr [d_zip_a, d_csv]) 2023 =
     ([Requested ''http://p/bike-2023.zip'', Requested ''http://p/Trips-2023.CSV''],
      Inr [t_jan, t_feb, t_q1])
   \<and> sublist (str_int 2023) ''http://p/bike-2023.zip''
   \<and> sublist (str_int 2023) ''t-2023-02.xlsx''
   \<and> \<not> sublist ''readme'' (lower ''http://p/Trips-2023.CSV'')"
proof -
  have "get_files_traced portal (JArr [d_zip_a, d_csv]) 2023 =
     ([Requested ''http://p/bike-2023.zip'', Requested ''http://p/Trips-2023.CSV''],
      Inr [(FromMember ''http://p/bike-2023.zip'' ''t-2023-01.csv'', t_jan),
           (FromMember ''http://p/bike-2023.zip'' ''t-2023-02.xlsx'', t_feb),
           (FromUrl ''http://p/Trips-2023.CSV'', t_q1)])"
    by (simp add: d_zip_a_def d_csv_def portal_def arch_a_def get_files_traced_def get_url_def
        skipped_def strs endswith_def try_body_traced_def dispatch_traced_def extract_traced_def
        member_ok_def read_member_def parse_csv_def choose_encoding_def)
  from tables_come_from_year_sources [OF this] show ?thesis
    by simp
qed

text \<open>
  C2 as stated fails: a ZIP resource with the member \<open>readme-2023.csv\<close> puts into the
  result a DataFrame whose identifying string, the member name, contains \<open>readme\<close>.
\<close>

theorem readme_member_counterexample:
  "get_files_traced portal (JArr [d_zip_c]) 2023 =
     ([Requested ''http://p/docs-2023.zip''],
      Inr [(FromMember ''http://p/docs-2023.zip'' ''readme-2023.csv'', t_doc)])
   \<and> sublist ''readme'' (identifying (FromMember ''http://p/docs-2023.zip'' ''readme-2023.csv''))
   \<and> create_df portal (JArr [d_zip_c]) 2023 =
       ([Requested ''http://p/docs-2023.zip''], Inr (pd_concat [t_doc]))"
proof -
  have "get_files_traced portal (JArr [d_zip_c]) 2023 =
     ([Requested ''http://p/docs-2023.zip''],
      Inr [(FromMember ''http://p/docs-2023.zip'' ''readme-2023.csv'', t_doc)])"
    by (simp add: d_zip_c_def portal_def arch_c_def get_files_traced_def get_url_def
        skipped_def strs endswith_def try_body_traced_def dispatch_traced_def extract_traced_def
        member_ok_def read_member_def parse_csv_def choose_encoding_def)
  moreover have "get_files portal (JArr [d_zip_c]) 2023 =
     ([Requested ''http://p/docs-2023.zip''], Inr [t_doc])"
    by (simp add: d_zip_c_def portal_def arch_c_def run)
  moreover have "sublist ''readme'' ''readme-2023.csv''"
    by (simp add: sublist_code)
  ultimately show ?thesis
    by (simp add: create_df_def)
qed

text \<open>
  C9. When the DataFrames collected are not none, \<open>create_df\<close> returns their
  concatenation: its row count is the sum of theirs, its index is \<open>0, 1, ...\<close> up to
  the row count, and row \<open>j\<close> of the \<open>i\<close>-th DataFrame is found, cell for cell under each
  of its own columns, at the place after all rows of the DataFrames before it. The
  DataFrames are collected in catalog order (what a first part of the catalog yields
  comes before what the rest yields), and those of one ZIP resource in the order of
  \<open>namelist()\<close>.
\<close>

theorem create_df_concatenates:
  assumes "get_files e (JArr ds1) year = (ev1, Inr a)"
    and "get_files e (JArr ds2) year = (ev2, Inr b)"
    and "a @ b \<noteq> []"
  shows "(\<exists>r. create_df e (JArr (ds1 @ ds2)) year = (ev1 @ ev2, Inr r)
           \<and> nrows r = sum_list (map nrows (a @ b))
           \<and> index r = [0 ..< nrows r]
           \<and> (\<forall>i < length (a @ b). \<forall>j < nrows ((a @ b) ! i).
                \<forall>c \<in> set (columns ((a @ b) ! i)).
                  cell_at (columns r) (rows r ! (sum_list (map nrows (take i (a @ b))) + j)) c
                    = cell_at (columns ((a @ b) ! i)) (rows ((a @ b) ! i) ! j) c))
       \<and> (getitem v ''format'' = Inr (JStr f) \<and> lower f = ''zip''
            \<and> http_get e u = Inr content \<and> zip_open e content = Inr z
            \<and> try_body e year v u = Inr new \<longrightarrow>
          map Inr new =
            map (read_member e z)
              (filter (\<lambda>n. (suffix ''.csv'' n \<or> suffix ''.xlsx'' n) \<and> sublist (str_int year) n)
                 (namelist z)))"
proof -
  from get_files_append [OF assms(1,2)] assms(3)
  have "create_df e (JArr (ds1 @ ds2)) year = (ev1 @ ev2, Inr (pd_concat (a @ b)))"
    by (simp add: create_df_def)
  moreover have "nrows (pd_concat (a @ b)) = sum_list (map nrows (a @ b))"
    by (rule nrows_pd_concat)
  moreover have "index (pd_concat (a @ b)) = [0 ..< nrows (pd_concat (a @ b))]"
    by (rule index_pd_concat)
  moreover have "\<forall>i < length (a @ b). \<forall>j < nrows ((a @ b) ! i).
                \<forall>c \<in> set (columns ((a @ b) ! i)).
                  cell_at (columns (pd_concat (a @ b)))
                     (rows (pd_concat (a @ b)) ! (sum_list (map nrows (take i (a @ b))) + j)) c
                    = cell_at (columns ((a @ b) ! i)) (rows ((a @ b) ! i) ! j) c"
    using cell_pd_concat [of _ "a @ b"] by blast
  ultimately have first: "\<exists>r. create_df e (JArr (ds1 @ ds2)) year = (ev1 @ ev2, Inr r)
           \<and> nrows r = sum_list (map nrows (a @ b))
           \<and> index r = [0 ..< nrows r]
           \<and> (\<forall>i < length (a @ b). \<forall>j < nrows ((a @ b) ! i).
                \<forall>c \<in> set (columns ((a @ b) ! i)).
                  cell_at (columns r) (rows r ! (sum_list (map nrows (take i (a @ b))) + j)) c
                    = cell_at (columns ((a @ b) ! i)) (rows ((a @ b) ! i) ! j) c)"
    by blast
  have ok: "member_ok (str_int year) =
              (\<lambda>n. (suffix ''.csv'' n \<or> suffix ''.xlsx'' n) \<and> sublist (str_int year) n)"
    by (rule ext) (rule member_ok_iff)
  have second: "getitem v ''format'' = Inr (JStr f) \<and> lower f = ''zip''
            \<and> http_get e u = Inr content \<and> zip_open e content = Inr z
            \<and> try_body e year v u = Inr new \<longrightarrow>
          map Inr new =
            map (read_member e z)
              (filter (\<lambda>n. (suffix ''.csv'' n \<or> suffix ''.xlsx'' n) \<and> sublist (str_int year) n)
                 (namelist z))"
    using zip_descriptor_tables [of v f e u content z year new] unfolding ok by blast
  from first second show ?thesis ..
qed

theorem create_df_concatenates_witness:
  "\<exists>r. create_df portal (JArr ([d_zip_a] @ [d_csv])) 2023 =
         ([Requested ''http://p/bike-2023.zip''] @ [Requested ''http://p/Trips-2023.CSV''], Inr r)
       \<and> nrows r = 4
       \<and> index r = [0 ..< 4]
       \<and> cell_at (columns r) (rows r ! 2) ''bike'' = Val ''b7''
       \<and> cell_at (columns r) (rows r ! 3) ''dur'' = Val ''30''"
proof -
  have a: "get_files portal (JArr [d_zip_a]) 2023 =
             ([Requested ''http://p/bike-2023.zip''], Inr [t_jan, t_feb])"
    by (simp add: d_zip_a_def portal_def arch_a_def run)
  have b: "get_files portal (JArr [d_csv]) 2023 =
             ([Requested ''http://p/Trips-2023.CSV''], Inr [t_q1])"
    by (simp add: d_csv_def portal_def run)
  have ne: "[t_jan, t_feb] @ [t_q1] \<noteq> []"
    by simp
  from create_df_concatenates [OF a b ne]
  obtain r where r: "create_df portal (JArr ([d_zip_a] @ [d_csv])) 2023 =
         ([Requested ''http://p/bike-2023.zip''] @ [Requested ''http://p/Trips-2023.CSV''], Inr r)"
    and n: "nrows r = sum_list (map nrows ([t_jan, t_feb] @ [t_q1]))"
    and i: "index r = [0 ..< nrows r]"
    and c: "\<forall>i < length ([t_jan, t_feb] @ [t_q1]). \<forall>j < nrows (([t_jan, t_feb] @ [t_q1]) ! i).
                \<forall>c \<in> set (columns (([t_jan, t_feb] @ [t_q1]) ! i)).
                  cell_at (columns r)
                    (rows r ! (sum_list (map nrows (take i ([t_jan, t_feb] @ [t_q1]))) + j)) c
                    = cell_at (columns (([t_jan, t_feb] @ [t_q1]) ! i))
                        (rows (([t_jan, t_feb] @ [t_q1]) ! i) ! j) c"
    by blast
  have nj: "nrows t_jan = 2" and nf: "nrows t_feb = 1" and nq: "nrows t_q1 = 1"
    by (simp_all add: nrows_def t_jan_def t_feb_def t_q1_def)
  have cf: "columns t_feb = [''id'', ''bike'']" and cq: "columns t_q1 = [''dur'']"
    by (simp_all add: t_feb_def t_q1_def)
  have e1: "cell_at (columns t_feb) (rows t_feb ! 0) ''bike'' = Val ''b7''"
    by (simp add: t_feb_def cell_at_def)
  have e2: "cell_at (columns t_q1) (rows t_q1 ! 0) ''dur'' = Val ''30''"
    by (simp add: t_q1_def cell_at_def)
  from n have n4: "nrows r = 4"
    by (simp add: nj nf nq)
  from c [rule_format, of 1 0 "''bike''"]
  have "cell_at (columns r) (rows r ! 2) ''bike'' =
          cell_at (columns t_feb) (rows t_feb ! 0) ''bike''"
    by (simp add: nj nf cf)
  with e1 have c1: "cell_at (columns r) (rows r ! 2) ''bike'' = Val ''b7''"
    by simp
  from c [rule_format, of 2 0 "''dur''"]
  have "cell_at (columns r) (rows r ! 3) ''dur'' =
          cell_at (columns t_q1) (rows t_q1 ! 0) ''dur''"
    by (simp add: nj nf nq cq)
  with e2 have c2: "cell_at (columns r) (rows r ! 3) ''dur'' = Val ''30''"
    by simp
  from r n4 i c1 c2 show ?thesis by auto
qed

end
